theory Spec2Isabelle
  imports Main "HOL-Library.Word"
begin

section \<open>Data model of the clipboard history (main process)\<close>

text \<open>
  The main process of the clipboard history manager, in the variant that deduplicates,
  pins and enforces the memory limit. (The older \<open>main.js\<close> has the same poller and
  handlers without these three features and without the detection of an external clear.)

  A JavaScript string is a sequence of UTF-16 code units. The clipboard content of an
  entry is such a string, either the copied text or the data URL of the copied image.
\<close>

type_synonym jsstring = "16 word list"

text \<open>The \<open>type\<close> argument of \<open>addToHistory\<close>: the literals \<open>'text'\<close> and \<open>'image'\<close>.\<close>

datatype ctype = Text | Image

text \<open>
  One object of the array \<open>clipboardHistory\<close>. \<open>id'\<close> holds the value of
  \<open>Date.now()\<close> (milliseconds, an integer), \<open>timestamp\<close> the instant read by
  \<open>new Date()\<close> (its ISO rendering is one-to-one on instants, so the instant itself is
  kept), \<open>size'\<close> the cached byte length. The sizes are JavaScript numbers; they are
  exact integers below \<open>2 ^ 53\<close>, far above anything a process can hold, so they are
  natural numbers here.
\<close>

record item =
  id' :: int
  content :: jsstring
  type' :: ctype
  timestamp :: int
  size' :: nat
  pinned :: bool

text \<open>
  The image handle returned by \<open>clipboard.readImage()\<close>: either empty
  (\<open>isEmpty()\<close> is true) or a picture, whose \<open>toDataURL()\<close> gives a string or throws
  (\<open>None\<close>).
\<close>

datatype nativeImage = EmptyImage | Picture "jsstring option"

fun isEmpty :: "nativeImage \<Rightarrow> bool" where
  "isEmpty EmptyImage = True"
| "isEmpty (Picture _) = False"

text \<open>The operating-system clipboard, as \<open>readText\<close> and \<open>readImage\<close> see it.\<close>

record osclipboard =
  readText :: jsstring
  readImage :: nativeImage

text \<open>The payload of a \<open>clipboard-updated\<close> message sent to the renderer.\<close>

record update =
  history :: "item list"
  currentContent :: "jsstring option"
  contentType :: "ctype option"
  memoryUsage :: nat

text \<open>
  The module-level variables of the main process, the system clipboard they talk to and
  the messages sent so far (oldest first). \<open>mainWindow\<close> is the truth value of
  \<open>mainWindow && mainWindow.webContents\<close>; \<open>clipboardMonitor\<close> tells whether the polling
  interval is installed.
\<close>

record state =
  clipboardHistory :: "item list"
  lastClipboardContent :: "jsstring option"
  mainWindow :: bool
  clipboardMonitor :: bool
  clipboard :: osclipboard
  sent :: "update list"

text \<open>Memory limit: 500MB.\<close>

definition MAX_MEMORY_BYTES :: nat where
  "MAX_MEMORY_BYTES = 500 * 1024 * 1024"

section \<open>Platform functions used by the store\<close>

text \<open>
  \<open>Buffer.byteLength(content, 'utf-8')\<close>: the number of bytes of the UTF-8 encoding of
  a UTF-16 string. A surrogate pair encodes one code point above \<open>0xFFFF\<close> in four
  bytes; a surrogate without its partner is encoded as U+FFFD, three bytes.
\<close>

definition isHighSurrogate :: "16 word \<Rightarrow> bool" where
  "isHighSurrogate u = (0xD800 \<le> u \<and> u \<le> 0xDBFF)"

definition isLowSurrogate :: "16 word \<Rightarrow> bool" where
  "isLowSurrogate u = (0xDC00 \<le> u \<and> u \<le> 0xDFFF)"

definition unitLength :: "16 word \<Rightarrow> nat" where
  "unitLength u = (if u < 0x80 then 1 else if u < 0x800 then 2 else 3)"

fun byteLength :: "jsstring \<Rightarrow> nat" where
  "byteLength [] = 0"
| "byteLength [u] = unitLength u"
| "byteLength (u # v # us) =
     (if isHighSurrogate u \<and> isLowSurrogate v then 4 + byteLength us
      else unitLength u + byteLength (v # us))"

text \<open>\<open>clipboard.clear()\<close> leaves neither text nor image on the system clipboard.\<close>

definition clipboard_clear :: osclipboard where
  "clipboard_clear = \<lparr>readText = [], readImage = EmptyImage\<rparr>"

section \<open>Array helpers\<close>

text \<open>\<open>Array.prototype.findIndex\<close>: the first index whose element passes, \<open>None\<close> for -1.\<close>

fun findIndex :: "('a \<Rightarrow> bool) \<Rightarrow> 'a list \<Rightarrow> nat option" where
  "findIndex p [] = None"
| "findIndex p (x # xs) =
     (if p x then Some 0 else map_option Suc (findIndex p xs))"

text \<open>\<open>xs.splice(i, 1)\<close> for an index in range: the array without its element \<open>i\<close>.\<close>

definition splice1 :: "nat \<Rightarrow> 'a list \<Rightarrow> 'a list" where
  "splice1 i xs = take i xs @ drop (Suc i) xs"

section \<open>The history store\<close>

text \<open>\<open>clipboardHistory.reduce((total, item) => total + item.size, 0)\<close>\<close>

definition getMemoryUsage :: "state \<Rightarrow> nat" where
  "getMemoryUsage s = foldl (\<lambda>total item. total + size' item) 0 (clipboardHistory s)"

text \<open>
  The inner loop of \<open>enforceMemoryLimit\<close>: \<open>i\<close> runs from \<open>length - 1\<close> down to 0 and
  stops at the first item that is not pinned. \<open>lastUnpinned h n\<close> inspects the indices
  below \<open>n\<close>; \<open>None\<close> is \<open>removeIndex === -1\<close>.
\<close>

fun lastUnpinned :: "item list \<Rightarrow> nat \<Rightarrow> nat option" where
  "lastUnpinned h 0 = None"
| "lastUnpinned h (Suc i) = (if \<not> pinned (h ! i) then Some i else lastUnpinned h i)"

text \<open>
  \<open>enforceMemoryLimit\<close>: while the usage exceeds the limit, remove the oldest item that
  is not pinned; stop when all items are pinned.
\<close>

function enforceMemoryLimit :: "state \<Rightarrow> state" where
  "enforceMemoryLimit s =
     (if getMemoryUsage s > MAX_MEMORY_BYTES then
        (case lastUnpinned (clipboardHistory s) (length (clipboardHistory s)) of
           None \<Rightarrow> s
         | Some removeIndex \<Rightarrow>
             enforceMemoryLimit (s\<lparr>clipboardHistory := splice1 removeIndex (clipboardHistory s)\<rparr>))
      else s)"
  by pat_completeness auto

termination enforceMemoryLimit
proof (relation "measure (\<lambda>s. length (clipboardHistory s))")
  show "wf (measure (\<lambda>s. length (clipboardHistory s)))" by simp
next
  fix s :: state and removeIndex
  assume found: "lastUnpinned (clipboardHistory s) (length (clipboardHistory s)) = Some removeIndex"
  have "lastUnpinned h n = Some i \<Longrightarrow> i < n" for h n i
    by (induction n) (auto split: if_splits)
  with found have "removeIndex < length (clipboardHistory s)" by blast
  then show "(s\<lparr>clipboardHistory := splice1 removeIndex (clipboardHistory s)\<rparr>, s)
      \<in> measure (\<lambda>s. length (clipboardHistory s))"
    by (simp add: splice1_def)
qed

declare enforceMemoryLimit.simps [simp del]

text \<open>
  The \<open>clipboard-updated\<close> message, sent when the window and its web contents exist.
\<close>

definition send_update :: "jsstring option \<Rightarrow> ctype option \<Rightarrow> state \<Rightarrow> state" where
  "send_update cur ty s =
     (if mainWindow s then
        s\<lparr>sent := sent s @ [\<lparr>history = clipboardHistory s, currentContent = cur,
                             contentType = ty, memoryUsage = getMemoryUsage s\<rparr>]\<rparr>
      else s)"

text \<open>
  The first statement of \<open>addToHistory\<close>, up to the call of \<open>enforceMemoryLimit\<close>:
  an item with the same content is taken out, stamped again and put in front; otherwise
  a new item is put in front. \<open>now\<close> is the value of \<open>Date.now()\<close>, \<open>stamp\<close> the instant
  of \<open>new Date()\<close>.
\<close>

definition promoteOrCreate :: "jsstring \<Rightarrow> ctype \<Rightarrow> int \<Rightarrow> int \<Rightarrow> item list \<Rightarrow> item list" where
  "promoteOrCreate c ty now stamp h =
     (case findIndex (\<lambda>item. content item = c) h of
        Some existingIndex \<Rightarrow>
          (h ! existingIndex)\<lparr>id' := now, timestamp := stamp\<rparr> # splice1 existingIndex h
      | None \<Rightarrow>
          \<lparr>id' = now, content = c, type' = ty, timestamp = stamp,
           size' = byteLength c, pinned = False\<rparr> # h)"

definition addToHistory :: "jsstring \<Rightarrow> ctype \<Rightarrow> int \<Rightarrow> int \<Rightarrow> state \<Rightarrow> state" where
  "addToHistory c ty now stamp s =
     send_update (Some c) (Some ty)
       (enforceMemoryLimit
          (s\<lparr>clipboardHistory := promoteOrCreate c ty now stamp (clipboardHistory s)\<rparr>))"

section \<open>The clipboard poller\<close>

text \<open>
  The first \<open>if\<close> of the interval callback: it chooses \<open>newContent\<close> together with
  \<open>contentType\<close> and records the content as last seen. A string is truthy when it is not
  empty. A \<open>toDataURL\<close> that throws is caught and logged, and nothing is chosen.
\<close>

definition detect :: "state \<Rightarrow> (jsstring \<times> ctype) option \<times> state" where
  "detect s =
     (let currentText = readText (clipboard s); currentImage = readImage (clipboard s) in
      if currentText \<noteq> [] \<and> Some currentText \<noteq> lastClipboardContent s then
        (Some (currentText, Text), s\<lparr>lastClipboardContent := Some currentText\<rparr>)
      else if currentText = [] \<and> \<not> isEmpty currentImage then
        (case currentImage of
           Picture (Some imageData) \<Rightarrow>
             if imageData \<noteq> [] \<and> Some imageData \<noteq> lastClipboardContent s then
               (Some (imageData, Image), s\<lparr>lastClipboardContent := Some imageData\<rparr>)
             else (None, s)
         | _ \<Rightarrow> (None, s))
      else (None, s))"

text \<open>
  The \<open>else if\<close> of the second statement: the clipboard was cleared from outside.
\<close>

definition clearedExternally :: "state \<Rightarrow> state" where
  "clearedExternally s =
     (if readText (clipboard s) = [] \<and> isEmpty (readImage (clipboard s))
         \<and> lastClipboardContent s \<noteq> None then
        send_update None None (s\<lparr>lastClipboardContent := None\<rparr>)
      else s)"

text \<open>
  One run of the interval callback of \<open>startClipboardMonitoring\<close>, with the two clock
  readings that \<open>addToHistory\<close> may take.
\<close>

definition tick :: "int \<Rightarrow> int \<Rightarrow> state \<Rightarrow> state" where
  "tick now stamp s =
     (case detect s of
        (Some (newContent, ty), s1) \<Rightarrow>
          if newContent \<noteq> [] then addToHistory newContent ty now stamp s1
          else clearedExternally s1
      | (None, s1) \<Rightarrow> clearedExternally s1)"

section \<open>IPC handlers\<close>

text \<open>
  The object a handler returns; a field the handler leaves out is \<open>None\<close>.
\<close>

record reply =
  success :: bool
  replyHistory :: "item list option"
  replyMemoryUsage :: "nat option"

text \<open>\<open>get-clipboard-history\<close>\<close>

definition get_clipboard_history :: "state \<Rightarrow> update" where
  "get_clipboard_history s =
     \<lparr>history = clipboardHistory s, currentContent = lastClipboardContent s,
      contentType = None, memoryUsage = getMemoryUsage s\<rparr>"

text \<open>
  \<open>copy-to-clipboard\<close>: the content is written to the system clipboard, as text or as
  an image according to the type, and recorded as last seen. \<open>written\<close> is the system
  clipboard after the write, \<open>None\<close> when the platform threw; then the handler answers
  with the error and records nothing.
\<close>

definition copy_to_clipboard :: "jsstring \<Rightarrow> osclipboard option \<Rightarrow> state \<Rightarrow> reply \<times> state" where
  "copy_to_clipboard c written s =
     (case written of
        Some w \<Rightarrow>
          (\<lparr>success = True, replyHistory = None, replyMemoryUsage = None\<rparr>,
           s\<lparr>clipboard := w, lastClipboardContent := Some c\<rparr>)
      | None \<Rightarrow> (\<lparr>success = False, replyHistory = None, replyMemoryUsage = None\<rparr>, s))"

text \<open>\<open>clear-clipboard\<close>\<close>

definition clear_clipboard :: "state \<Rightarrow> reply \<times> state" where
  "clear_clipboard s =
     (\<lparr>success = True, replyHistory = None, replyMemoryUsage = None\<rparr>,
      s\<lparr>clipboard := clipboard_clear, lastClipboardContent := None\<rparr>)"

text \<open>\<open>clear-history\<close>\<close>

definition clear_history :: "state \<Rightarrow> reply \<times> state" where
  "clear_history s =
     (\<lparr>success = True, replyHistory = None, replyMemoryUsage = Some 0\<rparr>,
      s\<lparr>clipboardHistory := [], lastClipboardContent := None, clipboard := clipboard_clear\<rparr>)"

text \<open>\<open>delete-history-item\<close>\<close>

definition delete_history_item :: "int \<Rightarrow> state \<Rightarrow> reply \<times> state" where
  "delete_history_item itemId s =
     (let initialLength = length (clipboardHistory s);
          s' = s\<lparr>clipboardHistory := filter (\<lambda>item. id' item \<noteq> itemId) (clipboardHistory s)\<rparr>;
          deleted = (initialLength \<noteq> length (clipboardHistory s'))
      in (\<lparr>success = deleted, replyHistory = Some (clipboardHistory s'),
           replyMemoryUsage = Some (getMemoryUsage s')\<rparr>, s'))"

text \<open>
  \<open>toggle-pin-item\<close>: \<open>find\<close> returns the first item with the id, and the assignment
  changes that object in place, where it stands in the array.
\<close>

definition toggle_pin_item :: "int \<Rightarrow> state \<Rightarrow> reply \<times> state" where
  "toggle_pin_item itemId s =
     (case findIndex (\<lambda>i. id' i = itemId) (clipboardHistory s) of
        Some k \<Rightarrow>
          (let item = clipboardHistory s ! k;
               s' = s\<lparr>clipboardHistory := (clipboardHistory s)[k := item\<lparr>pinned := \<not> pinned item\<rparr>]\<rparr>
           in (\<lparr>success = True, replyHistory = Some (clipboardHistory s'),
                replyMemoryUsage = Some (getMemoryUsage s')\<rparr>, s'))
      | None \<Rightarrow> (\<lparr>success = False, replyHistory = None, replyMemoryUsage = None\<rparr>, s))"

section \<open>The process as a sequence of events\<close>

text \<open>
  What can happen to the main process: the window is created (at start, or by the hotkey
  and the dock icon when there is none), it becomes ready to show (which starts the
  poller), it is closed or the application quits (which stop the poller), the interval
  fires, another application changes the system clipboard, the renderer invokes a
  handler (\<open>Copy\<close> carries what the platform made of the write). \<open>Insert\<close> is a direct call of \<open>addToHistory\<close>.
\<close>

datatype event =
    CreateWindow
  | ReadyToShow
  | Closed
  | BeforeQuit
  | Tick int int
  | External osclipboard
  | Insert jsstring ctype int int
  | Delete int
  | TogglePin int
  | ClearHistory
  | ClearClipboard
  | Copy jsstring "osclipboard option"

fun step :: "event \<Rightarrow> state \<Rightarrow> state" where
  "step CreateWindow s = s\<lparr>mainWindow := True\<rparr>"
| "step ReadyToShow s = (if mainWindow s then s\<lparr>clipboardMonitor := True\<rparr> else s)"
| "step Closed s = s\<lparr>mainWindow := False, clipboardMonitor := False\<rparr>"
| "step BeforeQuit s = s\<lparr>clipboardMonitor := False\<rparr>"
| "step (Tick now stamp) s = (if clipboardMonitor s then tick now stamp s else s)"
| "step (External c) s = s\<lparr>clipboard := c\<rparr>"
| "step (Insert c ty now stamp) s = addToHistory c ty now stamp s"
| "step (Delete itemId) s = snd (delete_history_item itemId s)"
| "step (TogglePin itemId) s = snd (toggle_pin_item itemId s)"
| "step ClearHistory s = snd (clear_history s)"
| "step ClearClipboard s = snd (clear_clipboard s)"
| "step (Copy c written) s = snd (copy_to_clipboard c written s)"

fun exec :: "state \<Rightarrow> event list \<Rightarrow> state" where
  "exec s [] = s"
| "exec s (e # es) = exec (step e s) es"

text \<open>The variables as the module initialises them, with any system clipboard.\<close>

definition initial :: "osclipboard \<Rightarrow> state" where
  "initial c =
     \<lparr>clipboardHistory = [], lastClipboardContent = None, mainWindow = False,
      clipboardMonitor = False, clipboard = c, sent = []\<rparr>"

section \<open>Clock readings of a run\<close>

text \<open>
  The values of \<open>Date.now()\<close> that the events of a run hand to \<open>addToHistory\<close>, in
  the order in which they are read.
\<close>

fun clockOf :: "event \<Rightarrow> int list" where
  "clockOf (Tick now stamp) = [now]"
| "clockOf (Insert c ty now stamp) = [now]"
| "clockOf _ = []"

definition clockReadings :: "event list \<Rightarrow> int list" where
  "clockReadings evs = concat (map clockOf evs)"

section \<open>Basic facts\<close>

lemma byteLength_replicate_ascii: "u < 0x80 \<Longrightarrow> byteLength (replicate n u) = n"
proof (induction n rule: less_induct)
  case (less n)
  show ?case
  proof (cases n)
    case 0 then show ?thesis by simp
  next
    case (Suc m)
    show ?thesis
    proof (cases m)
      case 0 with Suc less.prems show ?thesis by (simp add: unitLength_def)
    next
      case (Suc k)
      have nh: "\<not> isHighSurrogate u" using less.prems by (simp add: isHighSurrogate_def word_le_nat_alt word_less_nat_alt)
      have "byteLength (replicate (Suc k) u) = Suc k" using less.IH[of "Suc k"] less.prems Suc \<open>n = Suc m\<close> by simp
      then show ?thesis using Suc \<open>n = Suc m\<close> nh less.prems by (simp add: unitLength_def)
    qed
  qed
qed

lemma usage_sum: "getMemoryUsage s = sum_list (map size' (clipboardHistory s))"
proof -
  have "foldl (\<lambda>total item. total + size' item) a h = a + sum_list (map size' h)" for a and h :: "item list"
    by (induction h arbitrary: a) auto
  then show ?thesis by (simp add: getMemoryUsage_def)
qed

lemma lastUnpinned_None: "lastUnpinned h n = None \<longleftrightarrow> (\<forall>j<n. pinned (h ! j))"
  by (induction n) (auto simp: less_Suc_eq)

lemma lastUnpinned_Some:
  "lastUnpinned h n = Some i \<Longrightarrow> i < n \<and> \<not> pinned (h ! i) \<and> (\<forall>j. i < j \<and> j < n \<longrightarrow> pinned (h ! j))"
  by (induction n) (auto simp: less_Suc_eq split: if_splits)

lemma enforce_within: "getMemoryUsage s \<le> MAX_MEMORY_BYTES \<Longrightarrow> enforceMemoryLimit s = s"
  by (simp add: enforceMemoryLimit.simps)

lemma enforce_stuck:
  "lastUnpinned (clipboardHistory s) (length (clipboardHistory s)) = None \<Longrightarrow> enforceMemoryLimit s = s"
  by (simp add: enforceMemoryLimit.simps)

lemma enforce_evict:
  "MAX_MEMORY_BYTES < getMemoryUsage s \<Longrightarrow>
   lastUnpinned (clipboardHistory s) (length (clipboardHistory s)) = Some i \<Longrightarrow>
   enforceMemoryLimit s = enforceMemoryLimit (s\<lparr>clipboardHistory := splice1 i (clipboardHistory s)\<rparr>)"
  by (subst enforceMemoryLimit.simps) simp

lemma enforce_frame:
  "lastClipboardContent (enforceMemoryLimit s) = lastClipboardContent s \<and>
   mainWindow (enforceMemoryLimit s) = mainWindow s \<and>
   clipboardMonitor (enforceMemoryLimit s) = clipboardMonitor s \<and>
   clipboard (enforceMemoryLimit s) = clipboard s \<and>
   sent (enforceMemoryLimit s) = sent s"
proof (induction s rule: enforceMemoryLimit.induct)
  case (1 s)
  show ?case
  proof (cases "MAX_MEMORY_BYTES < getMemoryUsage s")
    case False
    then show ?thesis by (simp add: enforce_within)
  next
    case True
    show ?thesis
    proof (cases "lastUnpinned (clipboardHistory s) (length (clipboardHistory s))")
      case None
      then show ?thesis by (simp add: enforce_stuck)
    next
      case (Some i)
      from "1.IH"[OF True Some] show ?thesis by (simp add: enforce_evict[OF True Some])
    qed
  qed
qed

lemma all_pinned_conv: "(\<forall>j<length h. pinned (h ! j)) \<longleftrightarrow> (\<forall>e\<in>set h. pinned e)"
  by (simp add: all_set_conv_all_nth)

lemma enforce_post:
  "getMemoryUsage (enforceMemoryLimit s) \<le> MAX_MEMORY_BYTES \<or>
   (\<forall>e\<in>set (clipboardHistory (enforceMemoryLimit s)). pinned e)"
proof (induction s rule: enforceMemoryLimit.induct)
  case (1 s)
  show ?case
  proof (cases "MAX_MEMORY_BYTES < getMemoryUsage s")
    case False
    then show ?thesis by (simp add: enforce_within)
  next
    case True
    show ?thesis
    proof (cases "lastUnpinned (clipboardHistory s) (length (clipboardHistory s))")
      case None
      then have "\<forall>e\<in>set (clipboardHistory s). pinned e"
        by (simp add: lastUnpinned_None all_pinned_conv)
      with None show ?thesis by (simp add: enforce_stuck)
    next
      case (Some i)
      from "1.IH"[OF True Some] show ?thesis by (simp add: enforce_evict[OF True Some])
    qed
  qed
qed

lemma splice1_split:
  "i < length h \<Longrightarrow> h = take i h @ h ! i # drop (Suc i) h"
  by (simp add: id_take_nth_drop)

lemma lastUnpinned_tail:
  assumes "lastUnpinned h (length h) = Some i"
  shows "i < length h" "\<not> pinned (h ! i)" "\<forall>e\<in>set (drop (Suc i) h). pinned e"
proof -
  from lastUnpinned_Some[OF assms] show "i < length h" "\<not> pinned (h ! i)" by auto
  from lastUnpinned_Some[OF assms]
  have later: "\<forall>j. i < j \<and> j < length h \<longrightarrow> pinned (h ! j)" by auto
  show "\<forall>e\<in>set (drop (Suc i) h). pinned e"
  proof
    fix e assume "e \<in> set (drop (Suc i) h)"
    then obtain k where "k < length h - Suc i" "e = drop (Suc i) h ! k"
      by (auto simp: in_set_conv_nth)
    then have "e = h ! (Suc i + k)" "Suc i + k < length h" by auto
    with later show "pinned e" by simp
  qed
qed

lemma filter_pinned_splice1:
  assumes "lastUnpinned h (length h) = Some i"
  shows "filter pinned (splice1 i h) = filter pinned h"
proof -
  note t = lastUnpinned_tail[OF assms]
  have "filter pinned h = filter pinned (take i h @ h ! i # drop (Suc i) h)"
    using splice1_split[OF t(1)] by simp
  also have "\<dots> = filter pinned (splice1 i h)" using t(2) by (simp add: splice1_def)
  finally show ?thesis by simp
qed

lemma enforce_pinned:
  "filter pinned (clipboardHistory (enforceMemoryLimit s)) = filter pinned (clipboardHistory s)"
proof (induction s rule: enforceMemoryLimit.induct)
  case (1 s)
  show ?case
  proof (cases "MAX_MEMORY_BYTES < getMemoryUsage s")
    case False
    then show ?thesis by (simp add: enforce_within)
  next
    case True
    show ?thesis
    proof (cases "lastUnpinned (clipboardHistory s) (length (clipboardHistory s))")
      case None
      then show ?thesis by (simp add: enforce_stuck)
    next
      case (Some i)
      from "1.IH"[OF True Some] show ?thesis
        by (simp add: enforce_evict[OF True Some] filter_pinned_splice1[OF Some])
    qed
  qed
qed

lemma shape_step:
  assumes "\<forall>e\<in>set P. pinned e" "\<not> pinned x"
  shows "\<exists>k'. take k (A @ P) @ filter pinned (drop k (A @ P))
           = take k' (A @ x # P) @ filter pinned (drop k' (A @ x # P))"
proof (cases "k \<le> length A")
  case True
  with assms show ?thesis by (intro exI[of _ k]) simp
next
  case False
  have "filter pinned (drop (k - length A) P) = drop (k - length A) P"
    using assms(1) by (auto simp: filter_id_conv dest: in_set_dropD)
  moreover have "filter pinned P = P" using assms(1) by (simp add: filter_id_conv)
  ultimately show ?thesis using False assms(2) by (intro exI[of _ "length A"]) simp
qed

lemma enforce_shape:
  "\<exists>k. clipboardHistory (enforceMemoryLimit s)
        = take k (clipboardHistory s) @ filter pinned (drop k (clipboardHistory s))"
proof (induction s rule: enforceMemoryLimit.induct)
  case (1 s)
  let ?h = "clipboardHistory s"
  show ?case
  proof (cases "MAX_MEMORY_BYTES < getMemoryUsage s")
    case False
    then have "clipboardHistory (enforceMemoryLimit s) = take (length ?h) ?h @ filter pinned (drop (length ?h) ?h)"
      by (simp add: enforce_within)
    then show ?thesis by blast
  next
    case True
    show ?thesis
    proof (cases "lastUnpinned ?h (length ?h)")
      case None
      then have "clipboardHistory (enforceMemoryLimit s) = take (length ?h) ?h @ filter pinned (drop (length ?h) ?h)"
        by (simp add: enforce_stuck)
      then show ?thesis by blast
    next
      case (Some i)
      note t = lastUnpinned_tail[OF Some]
      from "1.IH"[OF True Some] obtain k where
        k: "clipboardHistory (enforceMemoryLimit s)
            = take k (splice1 i ?h) @ filter pinned (drop k (splice1 i ?h))"
        by (auto simp: enforce_evict[OF True Some])
      from shape_step[OF t(3) t(2), of k "take i ?h"] obtain k' where
        "take k (splice1 i ?h) @ filter pinned (drop k (splice1 i ?h))
           = take k' (take i ?h @ ?h ! i # drop (Suc i) ?h)
             @ filter pinned (drop k' (take i ?h @ ?h ! i # drop (Suc i) ?h))"
        by (auto simp: splice1_def)
      with k splice1_split[OF t(1)] show ?thesis by metis
    qed
  qed
qed
lemma findIndex_None: "findIndex p xs = None \<longleftrightarrow> (\<forall>x\<in>set xs. \<not> p x)"
  by (induction xs) auto

lemma findIndex_Some:
  "findIndex p xs = Some i \<Longrightarrow> i < length xs \<and> p (xs ! i) \<and> (\<forall>j<i. \<not> p (xs ! j))"
proof (induction xs arbitrary: i)
  case Nil
  then show ?case by simp
next
  case (Cons x xs)
  show ?case
  proof (cases "p x")
    case True
    with Cons.prems show ?thesis by simp
  next
    case False
    with Cons.prems obtain k where k: "findIndex p xs = Some k" "i = Suc k" by auto
    from Cons.IH[OF k(1)] False k(2) show ?thesis by (auto simp: less_Suc_eq_0_disj)
  qed
qed

lemma sum_splice1:
  fixes h :: "item list"
  assumes "i < length h"
  shows "size' (h ! i) + sum_list (map size' (splice1 i h)) = sum_list (map size' h)"
proof -
  have "sum_list (map size' h) = sum_list (map size' (take i h @ h ! i # drop (Suc i) h))"
    using splice1_split[OF assms] by simp
  then show ?thesis by (simp add: splice1_def)
qed

lemma sum_filter_le:
  fixes h :: "item list"
  shows "sum_list (map size' (filter p h)) \<le> sum_list (map size' h)"
  by (induction h) auto

lemma length_splice1: "i < length h \<Longrightarrow> Suc (length (splice1 i h)) = length h"
  by (auto simp: splice1_def)

lemma promote_usage:
  "findIndex (\<lambda>item. content item = c) h = Some i \<Longrightarrow>
   sum_list (map size' (promoteOrCreate c ty now stamp h)) = sum_list (map size' h)"
  using sum_splice1[of i h] by (auto simp: promoteOrCreate_def dest: findIndex_Some)

lemma enforce_length: "length (clipboardHistory (enforceMemoryLimit s)) \<le> length (clipboardHistory s)"
proof -
  obtain k where "clipboardHistory (enforceMemoryLimit s)
        = take k (clipboardHistory s) @ filter pinned (drop k (clipboardHistory s))"
    using enforce_shape by blast
  moreover have "length (filter pinned (drop k (clipboardHistory s))) \<le> length (drop k (clipboardHistory s))"
    by (rule length_filter_le)
  ultimately show ?thesis by simp
qed

lemma enforce_set: "set (clipboardHistory (enforceMemoryLimit s)) \<subseteq> set (clipboardHistory s)"
proof -
  obtain k where k: "clipboardHistory (enforceMemoryLimit s)
        = take k (clipboardHistory s) @ filter pinned (drop k (clipboardHistory s))"
    using enforce_shape by blast
  show ?thesis unfolding k by (auto dest: in_set_takeD in_set_dropD)
qed

lemma enforce_distinct:
  assumes "distinct (map f (clipboardHistory s))"
  shows "distinct (map f (clipboardHistory (enforceMemoryLimit s)))"
proof -
  let ?h = "clipboardHistory s"
  obtain k where k: "clipboardHistory (enforceMemoryLimit s) = take k ?h @ filter pinned (drop k ?h)"
    using enforce_shape by blast
  have "distinct (map f (take k ?h @ drop k ?h))" using assms by simp
  then have "distinct (map f (take k ?h))" "distinct (map f (drop k ?h))"
    "f ` set (take k ?h) \<inter> f ` set (drop k ?h) = {}"
    unfolding map_append distinct_append by auto
  then show ?thesis unfolding k by (auto simp: distinct_map_filter)
qed

lemma enforce_keeps_head:
  "clipboardHistory s = x # t \<Longrightarrow>
   pinned x \<or> size' x + sum_list (map size' (filter pinned t)) \<le> MAX_MEMORY_BYTES \<Longrightarrow>
   \<exists>t'. clipboardHistory (enforceMemoryLimit s) = x # t' \<and> filter pinned t' = filter pinned t"
proof (induction s arbitrary: t rule: enforceMemoryLimit.induct)
  case (1 s)
  show ?case
  proof (cases "MAX_MEMORY_BYTES < getMemoryUsage s")
    case False
    with "1.prems" show ?thesis by (simp add: enforce_within)
  next
    case True
    show ?thesis
    proof (cases "lastUnpinned (clipboardHistory s) (length (clipboardHistory s))")
      case None
      with "1.prems" show ?thesis by (simp add: enforce_stuck)
    next
      case (Some i)
      note tl = lastUnpinned_tail[OF Some]
      have "i \<noteq> 0"
      proof
        assume "i = 0"
        with tl "1.prems"(1) have unp: "\<not> pinned x" and rest: "\<forall>e\<in>set t. pinned e" by auto
        from rest have "filter pinned t = t" by (simp add: filter_id_conv)
        with unp "1.prems" have "getMemoryUsage s \<le> MAX_MEMORY_BYTES" by (simp add: usage_sum)
        with True show False by simp
      qed
      then obtain j where j: "i = Suc j" by (cases i) auto
      have sp: "splice1 i (clipboardHistory s) = x # splice1 j t"
        using "1.prems"(1) j by (simp add: splice1_def)
      have "filter pinned (x # splice1 j t) = filter pinned (x # t)"
        using filter_pinned_splice1[OF Some] sp "1.prems"(1) by simp
      then have fp: "filter pinned (splice1 j t) = filter pinned t" by (cases "pinned x") auto
      from "1.IH"[OF True Some, of "splice1 j t"] "1.prems"(2) sp fp
      show ?thesis by (simp add: enforce_evict[OF True Some])
    qed
  qed
qed
lemma send_update_frame:
  "clipboardHistory (send_update cur ty s) = clipboardHistory s \<and>
   lastClipboardContent (send_update cur ty s) = lastClipboardContent s \<and>
   mainWindow (send_update cur ty s) = mainWindow s \<and>
   clipboardMonitor (send_update cur ty s) = clipboardMonitor s \<and>
   clipboard (send_update cur ty s) = clipboard s"
  by (simp add: send_update_def)

lemma addToHistory_history:
  "clipboardHistory (addToHistory c ty now stamp s) =
   clipboardHistory (enforceMemoryLimit
     (s\<lparr>clipboardHistory := promoteOrCreate c ty now stamp (clipboardHistory s)\<rparr>))"
  by (simp add: addToHistory_def send_update_frame)

lemma addToHistory_frame:
  "lastClipboardContent (addToHistory c ty now stamp s) = lastClipboardContent s \<and>
   mainWindow (addToHistory c ty now stamp s) = mainWindow s \<and>
   clipboardMonitor (addToHistory c ty now stamp s) = clipboardMonitor s \<and>
   clipboard (addToHistory c ty now stamp s) = clipboard s"
  by (simp add: addToHistory_def send_update_frame enforce_frame)

lemma addToHistory_within:
  assumes "getMemoryUsage s \<le> MAX_MEMORY_BYTES"
  shows "getMemoryUsage (addToHistory c ty now stamp s) \<le> MAX_MEMORY_BYTES"
proof -
  let ?h = "clipboardHistory s"
  let ?s1 = "s\<lparr>clipboardHistory := promoteOrCreate c ty now stamp ?h\<rparr>"
  let ?h' = "clipboardHistory (enforceMemoryLimit ?s1)"
  have goal: "getMemoryUsage (addToHistory c ty now stamp s) = sum_list (map size' ?h')"
    by (simp add: usage_sum addToHistory_history)
  show ?thesis
  proof (cases "findIndex (\<lambda>item. content item = c) ?h")
    case (Some i)
    then have "getMemoryUsage ?s1 \<le> MAX_MEMORY_BYTES"
      using assms promote_usage[OF Some, of ty now stamp] by (simp add: usage_sum)
    then have "enforceMemoryLimit ?s1 = ?s1" by (rule enforce_within)
    then show ?thesis using \<open>getMemoryUsage ?s1 \<le> MAX_MEMORY_BYTES\<close> goal by (simp add: usage_sum)
  next
    case None
    from enforce_post[of ?s1] show ?thesis
    proof
      assume "getMemoryUsage (enforceMemoryLimit ?s1) \<le> MAX_MEMORY_BYTES"
      then show ?thesis using goal by (simp add: usage_sum)
    next
      assume "\<forall>e\<in>set ?h'. pinned e"
      then have "?h' = filter pinned ?h'" by (simp add: filter_id_conv)
      also have "\<dots> = filter pinned (clipboardHistory ?s1)" by (rule enforce_pinned)
      also have "\<dots> = filter pinned ?h" using None by (simp add: promoteOrCreate_def)
      finally have "sum_list (map size' ?h') \<le> sum_list (map size' ?h)"
        using sum_filter_le[of pinned ?h] by simp
      with assms goal show ?thesis by (simp add: usage_sum)
    qed
  qed
qed

lemma clearedExternally_history: "clipboardHistory (clearedExternally s) = clipboardHistory s"
  by (simp add: clearedExternally_def send_update_frame)

lemma detect_history: "clipboardHistory (snd (detect s)) = clipboardHistory s"
  by (simp add: detect_def Let_def split: nativeImage.splits option.splits)

lemma usage_cong: "clipboardHistory s = clipboardHistory s' \<Longrightarrow> getMemoryUsage s = getMemoryUsage s'"
  by (simp add: getMemoryUsage_def)

lemma tick_within:
  assumes "getMemoryUsage s \<le> MAX_MEMORY_BYTES"
  shows "getMemoryUsage (tick now stamp s) \<le> MAX_MEMORY_BYTES"
proof -
  obtain r s1 where d: "detect s = (r, s1)" by (cases "detect s")
  then have "clipboardHistory s1 = clipboardHistory s" using detect_history[of s] by simp
  then have s1: "getMemoryUsage s1 \<le> MAX_MEMORY_BYTES" using assms usage_cong[of s1 s] by simp
  have ce: "getMemoryUsage (clearedExternally s1) \<le> MAX_MEMORY_BYTES"
    using s1 usage_cong[OF clearedExternally_history[of s1]] by simp
  show ?thesis using d ce addToHistory_within[OF s1]
    by (auto simp: tick_def split: option.splits)
qed

lemma toggle_sizes:
  fixes h :: "item list"
  shows "k < length h \<Longrightarrow> map size' (h[k := (h ! k)\<lparr>pinned := b\<rparr>]) = map size' h"
  by (simp add: map_update list_update_same_conv)

lemma step_within:
  assumes "getMemoryUsage s \<le> MAX_MEMORY_BYTES"
  shows "getMemoryUsage (step e s) \<le> MAX_MEMORY_BYTES"
proof (cases e)
  case (Tick now stamp)
  then show ?thesis using assms tick_within[OF assms] by simp
next
  case (Insert c ty now stamp)
  then show ?thesis using addToHistory_within[OF assms] by simp
next
  case (Delete itemId)
  have "sum_list (map size' (filter (\<lambda>item. id' item \<noteq> itemId) (clipboardHistory s)))
          \<le> sum_list (map size' (clipboardHistory s))" by (rule sum_filter_le)
  with Delete assms show ?thesis by (simp add: delete_history_item_def Let_def usage_sum)
next
  case (TogglePin itemId)
  show ?thesis
  proof (cases "findIndex (\<lambda>i. id' i = itemId) (clipboardHistory s)")
    case None
    with TogglePin assms show ?thesis by (simp add: toggle_pin_item_def)
  next
    case (Some k)
    then have "k < length (clipboardHistory s)" by (auto dest: findIndex_Some)
    with Some TogglePin assms show ?thesis
      by (simp add: toggle_pin_item_def Let_def usage_sum toggle_sizes)
  qed
next
  case ClearHistory
  then show ?thesis by (simp add: clear_history_def usage_sum)
qed (use assms in \<open>simp_all add: usage_sum clear_clipboard_def copy_to_clipboard_def
      split: option.splits\<close>)

lemma exec_within:
  "getMemoryUsage s \<le> MAX_MEMORY_BYTES \<Longrightarrow> getMemoryUsage (exec s evs) \<le> MAX_MEMORY_BYTES"
  by (induction evs arbitrary: s) (simp_all add: step_within)

lemma initial_within: "getMemoryUsage (initial c) \<le> MAX_MEMORY_BYTES"
  by (simp add: initial_def usage_sum)

lemma reachable_within: "getMemoryUsage (exec (initial c) evs) \<le> MAX_MEMORY_BYTES"
  by (rule exec_within[OF initial_within])

lemma tick_window:
  "mainWindow (tick now stamp s) = mainWindow s \<and> clipboardMonitor (tick now stamp s) = clipboardMonitor s"
  by (auto simp: tick_def detect_def Let_def clearedExternally_def send_update_frame addToHistory_frame
      split: option.splits nativeImage.splits prod.splits)

lemma step_monitor:
  assumes "clipboardMonitor s \<longrightarrow> mainWindow s"
  shows "clipboardMonitor (step e s) \<longrightarrow> mainWindow (step e s)"
  using assms
  by (cases e) (auto simp: tick_window addToHistory_frame delete_history_item_def Let_def
      toggle_pin_item_def clear_history_def clear_clipboard_def copy_to_clipboard_def
      split: option.splits)

lemma exec_monitor:
  "clipboardMonitor s \<longrightarrow> mainWindow s \<Longrightarrow> clipboardMonitor (exec s evs) \<longrightarrow> mainWindow (exec s evs)"
  by (induction evs arbitrary: s) (simp_all add: step_monitor)

lemma reachable_monitor:
  "clipboardMonitor (exec (initial c) evs) \<Longrightarrow> mainWindow (exec (initial c) evs)"
  using exec_monitor[of "initial c" evs] by (simp add: initial_def)
lemma filter_length_eq: "length (filter p xs) = length xs \<longleftrightarrow> (\<forall>x\<in>set xs. p x)"
  by (metis filter_id_conv length_filter_less less_irrefl filter_True)

lemma splice1_set: "set (splice1 i h) \<subseteq> set h"
  by (auto simp: splice1_def dest: in_set_takeD in_set_dropD)

lemma splice1_distinct: "distinct (map f h) \<Longrightarrow> distinct (map f (splice1 i h))"
proof -
  assume d: "distinct (map f h)"
  have "set (take i (map f h)) \<inter> set (drop (Suc i) (map f h)) = {}"
    using d by (rule set_take_disj_set_drop_if_distinct) simp
  with d have "distinct (take i (map f h) @ drop (Suc i) (map f h))" by simp
  then show ?thesis by (simp add: splice1_def take_map drop_map)
qed

lemma promote_ids:
  assumes "distinct (map id' h)" "now \<notin> id' ` set h"
  shows "distinct (map id' (promoteOrCreate c ty now stamp h))
     \<and> id' ` set (promoteOrCreate c ty now stamp h) \<subseteq> insert now (id' ` set h)"
proof (cases "findIndex (\<lambda>item. content item = c) h")
  case None
  with assms show ?thesis by (auto simp: promoteOrCreate_def)
next
  case (Some i)
  have "now \<notin> id' ` set (splice1 i h)" using assms(2) splice1_set[of i h] by auto
  with Some splice1_distinct[OF assms(1), of i] splice1_set[of i h]
  show ?thesis by (auto simp: promoteOrCreate_def)
qed

lemma addToHistory_ids:
  assumes "distinct (map id' (clipboardHistory s))" "now \<notin> id' ` set (clipboardHistory s)"
  shows "distinct (map id' (clipboardHistory (addToHistory c ty now stamp s)))
     \<and> id' ` set (clipboardHistory (addToHistory c ty now stamp s))
         \<subseteq> insert now (id' ` set (clipboardHistory s))"
proof -
  let ?s1 = "s\<lparr>clipboardHistory := promoteOrCreate c ty now stamp (clipboardHistory s)\<rparr>"
  from promote_ids[OF assms, of c ty stamp]
  have d: "distinct (map id' (clipboardHistory ?s1))"
    and sub: "id' ` set (clipboardHistory ?s1) \<subseteq> insert now (id' ` set (clipboardHistory s))"
    by simp_all
  from enforce_distinct[OF d] enforce_set[of ?s1] sub
  show ?thesis unfolding addToHistory_history by blast
qed

lemma tick_ids:
  assumes "distinct (map id' (clipboardHistory s))" "now \<notin> id' ` set (clipboardHistory s)"
  shows "distinct (map id' (clipboardHistory (tick now stamp s)))
     \<and> id' ` set (clipboardHistory (tick now stamp s))
         \<subseteq> insert now (id' ` set (clipboardHistory s))"
proof -
  obtain r s1 where d: "detect s = (r, s1)" by (cases "detect s")
  then have h1: "clipboardHistory s1 = clipboardHistory s" using detect_history[of s] by simp
  have add: "distinct (map id' (clipboardHistory (addToHistory c ty now stamp s1)))
     \<and> id' ` set (clipboardHistory (addToHistory c ty now stamp s1))
         \<subseteq> insert now (id' ` set (clipboardHistory s))" for c ty
    using addToHistory_ids[of s1 now c ty stamp] assms h1 by simp
  show ?thesis using d add assms h1
    by (auto simp: tick_def clearedExternally_history split: option.splits)
qed

lemma step_ids:
  assumes "distinct (map id' (clipboardHistory s))"
    and "\<forall>r\<in>set (clockOf e). r \<notin> id' ` set (clipboardHistory s)"
  shows "distinct (map id' (clipboardHistory (step e s)))
     \<and> id' ` set (clipboardHistory (step e s))
         \<subseteq> id' ` set (clipboardHistory s) \<union> set (clockOf e)"
proof (cases e)
  case (Tick now stamp)
  with assms tick_ids[of s now stamp] show ?thesis by auto
next
  case (Insert c ty now stamp)
  with assms addToHistory_ids[of s now c ty stamp] show ?thesis by auto
next
  case (Delete itemId)
  with assms show ?thesis by (auto simp: delete_history_item_def Let_def distinct_map_filter)
next
  case (TogglePin itemId)
  show ?thesis
  proof (cases "findIndex (\<lambda>i. id' i = itemId) (clipboardHistory s)")
    case None
    with TogglePin assms show ?thesis by (simp add: toggle_pin_item_def)
  next
    case (Some k)
    then have k: "k < length (clipboardHistory s)" by (auto dest: findIndex_Some)
    have "map id' ((clipboardHistory s)[k := (clipboardHistory s ! k)\<lparr>pinned := b\<rparr>])
        = map id' (clipboardHistory s)" for b
      using k by (simp add: map_update list_update_same_conv)
    then have "distinct (map id' ((clipboardHistory s)[k := (clipboardHistory s ! k)\<lparr>pinned := b\<rparr>]))
      \<and> id' ` set ((clipboardHistory s)[k := (clipboardHistory s ! k)\<lparr>pinned := b\<rparr>])
         = id' ` set (clipboardHistory s)" for b
      using assms(1) by (metis list.set_map)
    with Some TogglePin show ?thesis by (simp add: toggle_pin_item_def Let_def)
  qed
qed (use assms in \<open>simp_all add: clear_history_def clear_clipboard_def copy_to_clipboard_def
      split: option.splits\<close>)

lemma exec_ids:
  "distinct (map id' (clipboardHistory s)) \<Longrightarrow>
   sorted_wrt (<) (clockReadings evs) \<Longrightarrow>
   \<forall>x\<in>id' ` set (clipboardHistory s). \<forall>r\<in>set (clockReadings evs). x < r \<Longrightarrow>
   distinct (map id' (clipboardHistory (exec s evs)))"
proof (induction evs arbitrary: s)
  case Nil
  then show ?case by simp
next
  case (Cons e evs)
  have cr: "clockReadings (e # evs) = clockOf e @ clockReadings evs"
    by (simp add: clockReadings_def)
  from Cons.prems(3) have fresh: "\<forall>r\<in>set (clockOf e). r \<notin> id' ` set (clipboardHistory s)"
    unfolding cr by fastforce
  note st = step_ids[OF Cons.prems(1) fresh]
  have sorted': "sorted_wrt (<) (clockReadings evs)"
    using Cons.prems(2) unfolding cr by (simp add: sorted_wrt_append)
  have below: "\<forall>x\<in>id' ` set (clipboardHistory (step e s)). \<forall>r\<in>set (clockReadings evs). x < r"
  proof (intro ballI)
    fix x r assume x: "x \<in> id' ` set (clipboardHistory (step e s))" and r: "r \<in> set (clockReadings evs)"
    from x st have "x \<in> id' ` set (clipboardHistory s) \<or> x \<in> set (clockOf e)" by blast
    then show "x < r"
    proof
      assume "x \<in> id' ` set (clipboardHistory s)"
      with Cons.prems(3) r show ?thesis unfolding cr by auto
    next
      assume "x \<in> set (clockOf e)"
      with Cons.prems(2) r show ?thesis unfolding cr by (simp add: sorted_wrt_append)
    qed
  qed
  from Cons.IH[OF _ sorted' below] st show ?case by simp
qed


lemma sent_step:
  assumes "\<forall>u\<in>set (sent s). memoryUsage u = sum_list (map size' (history u))"
  shows "\<forall>u\<in>set (sent (send_update cur ty s)). memoryUsage u = sum_list (map size' (history u))"
  using assms by (auto simp: send_update_def usage_sum)

lemma sent_addToHistory:
  assumes "\<forall>u\<in>set (sent s). memoryUsage u = sum_list (map size' (history u))"
  shows "\<forall>u\<in>set (sent (addToHistory c ty now stamp s)).
           memoryUsage u = sum_list (map size' (history u))"
  unfolding addToHistory_def
  by (rule sent_step) (use assms in \<open>simp add: enforce_frame\<close>)

lemma sent_tick:
  assumes "\<forall>u\<in>set (sent s). memoryUsage u = sum_list (map size' (history u))"
  shows "\<forall>u\<in>set (sent (tick now stamp s)). memoryUsage u = sum_list (map size' (history u))"
proof -
  obtain r s1 where d: "detect s = (r, s1)" by (cases "detect s")
  then have "sent s1 = sent s"
    by (auto simp: detect_def Let_def split: if_splits nativeImage.splits option.splits)
  with assms have s1: "\<forall>u\<in>set (sent s1). memoryUsage u = sum_list (map size' (history u))"
    by simp
  have ce: "\<forall>u\<in>set (sent (clearedExternally s1)). memoryUsage u = sum_list (map size' (history u))"
    unfolding clearedExternally_def using s1 sent_step[of "s1\<lparr>lastClipboardContent := None\<rparr>"]
    by simp
  show ?thesis using d ce sent_addToHistory[OF s1]
    by (auto simp: tick_def split: option.splits)
qed

lemma sent_exec:
  "\<forall>u\<in>set (sent s). memoryUsage u = sum_list (map size' (history u)) \<Longrightarrow>
   \<forall>u\<in>set (sent (exec s evs)). memoryUsage u = sum_list (map size' (history u))"
proof (induction evs arbitrary: s)
  case Nil
  then show ?case by simp
next
  case (Cons e evs)
  have "\<forall>u\<in>set (sent (step e s)). memoryUsage u = sum_list (map size' (history u))"
  proof (cases e)
    case (Tick now stamp)
    with sent_tick[OF Cons.prems] Cons.prems show ?thesis by simp
  next
    case (Insert c ty now stamp)
    with sent_addToHistory[OF Cons.prems] show ?thesis by simp
  qed (use Cons.prems in \<open>simp_all add: delete_history_item_def Let_def toggle_pin_item_def
        clear_history_def clear_clipboard_def copy_to_clipboard_def split: option.splits\<close>)
  then show ?case using Cons.IH by simp
qed

lemma bigA: "byteLength (replicate 314572800 (0x41::16 word)) = 314572800"
  by (rule byteLength_replicate_ascii) simp

lemma bigB: "byteLength (replicate 314572800 (0x42::16 word)) = 314572800"
  by (rule byteLength_replicate_ascii) simp

lemmas run = initial_def clipboard_clear_def addToHistory_def send_update_def promoteOrCreate_def
  toggle_pin_item_def delete_history_item_def clear_history_def clear_clipboard_def
  copy_to_clipboard_def enforceMemoryLimit.simps getMemoryUsage_def MAX_MEMORY_BYTES_def splice1_def
  unitLength_def tick_def detect_def clearedExternally_def get_clipboard_history_def Let_def

section \<open>Insertion: promotion of a duplicate, creation otherwise\<close>

text \<open>
  Claim C1, as the code has it. Let \<open>h\<close> be the history before \<open>addToHistory\<close>.
  When an item with the same content stands at index \<open>i\<close>, the history never grows, and
  in a state whose usage is within the limit (every state of every run is, last
  conjunct) the result is exactly that item with \<open>id\<close> set to the reading of
  \<open>Date.now()\<close> and \<open>timestamp\<close> to the reading of \<open>new Date()\<close>, its other fields
  (so its pin) as they were, followed by \<open>h\<close> without index \<open>i\<close>. When no item has the
  content, the new item (not pinned, size the UTF-8 byte length of the content) is the
  first item of the result provided its size plus the sizes of the pinned items is
  within the limit, and the result is the new item followed by \<open>h\<close> when the old usage
  plus its size is within the limit.
\<close>

theorem addToHistory_promote_or_create:
  "(findIndex (\<lambda>item. content item = c) (clipboardHistory s) = Some i \<longrightarrow>
      i < length (clipboardHistory s)
      \<and> content (clipboardHistory s ! i) = c
      \<and> length (clipboardHistory (addToHistory c ty now stamp s)) \<le> length (clipboardHistory s)
      \<and> (getMemoryUsage s \<le> MAX_MEMORY_BYTES \<longrightarrow>
           clipboardHistory (addToHistory c ty now stamp s)
             = (clipboardHistory s ! i)\<lparr>id' := now, timestamp := stamp\<rparr>
                 # splice1 i (clipboardHistory s)
           \<and> length (clipboardHistory (addToHistory c ty now stamp s))
               = length (clipboardHistory s)))
   \<and> (findIndex (\<lambda>item. content item = c) (clipboardHistory s) = None \<longrightarrow>
      (byteLength c + sum_list (map size' (filter pinned (clipboardHistory s))) \<le> MAX_MEMORY_BYTES \<longrightarrow>
         (\<exists>t. clipboardHistory (addToHistory c ty now stamp s)
                = \<lparr>id' = now, content = c, type' = ty, timestamp = stamp,
                   size' = byteLength c, pinned = False\<rparr> # t
              \<and> filter pinned t = filter pinned (clipboardHistory s)
              \<and> length t \<le> length (clipboardHistory s)))
      \<and> (getMemoryUsage s + byteLength c \<le> MAX_MEMORY_BYTES \<longrightarrow>
           clipboardHistory (addToHistory c ty now stamp s)
             = \<lparr>id' = now, content = c, type' = ty, timestamp = stamp,
                size' = byteLength c, pinned = False\<rparr> # clipboardHistory s))
   \<and> getMemoryUsage (exec (initial c0) evs) \<le> MAX_MEMORY_BYTES"
proof -
  let ?h = "clipboardHistory s"
  let ?s1 = "s\<lparr>clipboardHistory := promoteOrCreate c ty now stamp ?h\<rparr>"
  let ?h' = "clipboardHistory (addToHistory c ty now stamp s)"
  let ?new = "\<lparr>id' = now, content = c, type' = ty, timestamp = stamp,
                size' = byteLength c, pinned = False\<rparr>"
  have h': "?h' = clipboardHistory (enforceMemoryLimit ?s1)" by (rule addToHistory_history)
  have dedup: "i < length ?h \<and> content (?h ! i) = c \<and> length ?h' \<le> length ?h
      \<and> (getMemoryUsage s \<le> MAX_MEMORY_BYTES \<longrightarrow>
           ?h' = (?h ! i)\<lparr>id' := now, timestamp := stamp\<rparr> # splice1 i ?h
           \<and> length ?h' = length ?h)"
    if some: "findIndex (\<lambda>item. content item = c) ?h = Some i"
  proof -
    from findIndex_Some[OF some] have i: "i < length ?h" "content (?h ! i) = c" by auto
    have p: "promoteOrCreate c ty now stamp ?h = (?h ! i)\<lparr>id' := now, timestamp := stamp\<rparr> # splice1 i ?h"
      using some by (simp add: promoteOrCreate_def)
    have len1: "length (clipboardHistory ?s1) = length ?h"
      using p length_splice1[OF i(1)] by simp
    have len: "length ?h' \<le> length ?h"
      using enforce_length[of ?s1] len1 h' by simp
    have exact: "?h' = (?h ! i)\<lparr>id' := now, timestamp := stamp\<rparr> # splice1 i ?h \<and> length ?h' = length ?h"
      if within: "getMemoryUsage s \<le> MAX_MEMORY_BYTES"
    proof -
      have "getMemoryUsage ?s1 \<le> MAX_MEMORY_BYTES"
        using within promote_usage[OF some, of ty now stamp] by (simp add: usage_sum)
      then have "enforceMemoryLimit ?s1 = ?s1" by (rule enforce_within)
      with h' p len1 show ?thesis by simp
    qed
    from i len exact show ?thesis by blast
  qed
  have fresh: "(byteLength c + sum_list (map size' (filter pinned ?h)) \<le> MAX_MEMORY_BYTES \<longrightarrow>
         (\<exists>t. ?h' = ?new # t \<and> filter pinned t = filter pinned ?h \<and> length t \<le> length ?h))
      \<and> (getMemoryUsage s + byteLength c \<le> MAX_MEMORY_BYTES \<longrightarrow> ?h' = ?new # ?h)"
    if none: "findIndex (\<lambda>item. content item = c) ?h = None"
  proof -
    have p: "clipboardHistory ?s1 = ?new # ?h" using none by (simp add: promoteOrCreate_def)
    have a: "\<exists>t. ?h' = ?new # t \<and> filter pinned t = filter pinned ?h \<and> length t \<le> length ?h"
      if "byteLength c + sum_list (map size' (filter pinned ?h)) \<le> MAX_MEMORY_BYTES"
    proof -
      from enforce_keeps_head[OF p] that obtain t where
        t: "clipboardHistory (enforceMemoryLimit ?s1) = ?new # t" "filter pinned t = filter pinned ?h"
        by auto
      from enforce_length[of ?s1] p t(1) have "length t \<le> length ?h" by simp
      with t h' show ?thesis by simp
    qed
    have b: "?h' = ?new # ?h" if "getMemoryUsage s + byteLength c \<le> MAX_MEMORY_BYTES"
    proof -
      have "getMemoryUsage ?s1 \<le> MAX_MEMORY_BYTES" using that p by (simp add: usage_sum)
      then have "enforceMemoryLimit ?s1 = ?s1" by (rule enforce_within)
      with h' p show ?thesis by simp
    qed
    from a b show ?thesis by blast
  qed
  from dedup fresh reachable_within[of c0 evs] show ?thesis by blast
qed

theorem addToHistory_promote_or_create_witness:
  "findIndex (\<lambda>item. content item = [0x41]) (clipboardHistory (exec (initial clipboard_clear)
        [Insert [0x41] Text 1 1, TogglePin 1, Insert [0x42] Text 2 2])) = Some 1
   \<and> getMemoryUsage (exec (initial clipboard_clear)
        [Insert [0x41] Text 1 1, TogglePin 1, Insert [0x42] Text 2 2]) \<le> MAX_MEMORY_BYTES
   \<and> clipboardHistory (addToHistory [0x41] Text 3 4 (exec (initial clipboard_clear)
        [Insert [0x41] Text 1 1, TogglePin 1, Insert [0x42] Text 2 2]))
       = [\<lparr>id' = 3, content = [0x41], type' = Text, timestamp = 4, size' = 1, pinned = True\<rparr>,
          \<lparr>id' = 2, content = [0x42], type' = Text, timestamp = 2, size' = 1, pinned = False\<rparr>]
   \<and> findIndex (\<lambda>item. content item = [0x43]) (clipboardHistory (exec (initial clipboard_clear)
        [Insert [0x41] Text 1 1, TogglePin 1, Insert [0x42] Text 2 2])) = None
   \<and> clipboardHistory (addToHistory [0x43] Image 3 4 (exec (initial clipboard_clear)
        [Insert [0x41] Text 1 1, TogglePin 1, Insert [0x42] Text 2 2]))
       = [\<lparr>id' = 3, content = [0x43], type' = Image, timestamp = 4, size' = 1, pinned = False\<rparr>,
          \<lparr>id' = 2, content = [0x42], type' = Text, timestamp = 2, size' = 1, pinned = False\<rparr>, \<lparr>id' = 1, content = [0x41], type' = Text, timestamp = 1, size' = 1, pinned = True\<rparr>]"
  using addToHistory_promote_or_create[where s = "(exec (initial clipboard_clear)
        [Insert [0x41] Text 1 1, TogglePin 1, Insert [0x42] Text 2 2])"
      and c = "[0x41]" and i = 1 and ty = Text and now = 3 and stamp = 4
      and ?c0.0 = clipboard_clear and evs = "[]"]
    addToHistory_promote_or_create[where s = "(exec (initial clipboard_clear)
        [Insert [0x41] Text 1 1, TogglePin 1, Insert [0x42] Text 2 2])"
      and c = "[0x43]" and i = 0 and ty = Image and now = 3 and stamp = 4
      and ?c0.0 = clipboard_clear and evs = "[]"]
  by (simp add: run)

text \<open>
  The claim as the specification states it fails: with a pinned item of 300 MiB in the
  history, inserting another content of 300 MiB puts the new item in front and
  \<open>enforceMemoryLimit\<close> removes it again, as the only item that is not pinned. After
  \<open>addToHistory\<close> the history holds the pinned item alone.
\<close>

theorem addToHistory_new_item_evicted:
  "clipboardHistory (exec (initial clipboard_clear)
      [Insert (replicate 314572800 0x41) Text 1 1, TogglePin 1,
       Insert (replicate 314572800 0x42) Text 2 2])
   = [\<lparr>id' = 1, content = replicate 314572800 0x41, type' = Text, timestamp = 1,
       size' = 314572800, pinned = True\<rparr>]"
  by (simp add: run bigA bigB)

section \<open>The memory limit\<close>

text \<open>
  Claim C2. After \<open>enforceMemoryLimit\<close> the usage is at most \<open>MAX_MEMORY_BYTES\<close> or
  every remaining item is pinned, and the pinned items are the same, in the same order,
  as before: it never removes a pinned item. The same bound holds after
  \<open>addToHistory\<close>, which runs it, and in every state of every run.
\<close>

theorem enforceMemoryLimit_ceiling_or_pinned:
  "(getMemoryUsage (enforceMemoryLimit s) \<le> MAX_MEMORY_BYTES
      \<or> (\<forall>e\<in>set (clipboardHistory (enforceMemoryLimit s)). pinned e))
   \<and> filter pinned (clipboardHistory (enforceMemoryLimit s)) = filter pinned (clipboardHistory s)
   \<and> (getMemoryUsage (addToHistory c ty now stamp s) \<le> MAX_MEMORY_BYTES
      \<or> (\<forall>e\<in>set (clipboardHistory (addToHistory c ty now stamp s)). pinned e))
   \<and> (getMemoryUsage (exec (initial c0) evs) \<le> MAX_MEMORY_BYTES
      \<or> (\<forall>e\<in>set (clipboardHistory (exec (initial c0) evs)). pinned e))"
proof -
  let ?s1 = "s\<lparr>clipboardHistory := promoteOrCreate c ty now stamp (clipboardHistory s)\<rparr>"
  have "getMemoryUsage (addToHistory c ty now stamp s) = getMemoryUsage (enforceMemoryLimit ?s1)"
    by (rule usage_cong) (rule addToHistory_history)
  with enforce_post[of ?s1] have
    "getMemoryUsage (addToHistory c ty now stamp s) \<le> MAX_MEMORY_BYTES
      \<or> (\<forall>e\<in>set (clipboardHistory (addToHistory c ty now stamp s)). pinned e)"
    by (simp add: addToHistory_history)
  with enforce_post[of s] enforce_pinned[of s] reachable_within[of c0 evs]
  show ?thesis by blast
qed

theorem enforceMemoryLimit_ceiling_or_pinned_witness:
  "getMemoryUsage (enforceMemoryLimit
      (initial clipboard_clear\<lparr>clipboardHistory := [\<lparr>id' = 2, content = replicate 314572800 0x42, type' = Text, timestamp = 2, size' = 314572800, pinned = False\<rparr>,
          \<lparr>id' = 1, content = replicate 314572800 0x41, type' = Text, timestamp = 1, size' = 314572800, pinned = False\<rparr>\<lparr>pinned := True\<rparr>]\<rparr>)) = 314572800
   \<and> filter pinned (clipboardHistory (enforceMemoryLimit
      (initial clipboard_clear\<lparr>clipboardHistory := [\<lparr>id' = 2, content = replicate 314572800 0x42, type' = Text, timestamp = 2, size' = 314572800, pinned = False\<rparr>,
          \<lparr>id' = 1, content = replicate 314572800 0x41, type' = Text, timestamp = 1, size' = 314572800, pinned = False\<rparr>\<lparr>pinned := True\<rparr>]\<rparr>)))
       = [\<lparr>id' = 1, content = replicate 314572800 0x41, type' = Text, timestamp = 1, size' = 314572800, pinned = False\<rparr>\<lparr>pinned := True\<rparr>]
   \<and> getMemoryUsage (addToHistory (replicate 314572800 0x42) Text 2 2 (initial clipboard_clear)) = 314572800
   \<and> getMemoryUsage (exec (initial clipboard_clear) [Insert (replicate 314572800 0x41) Text 1 1]) = 314572800"
  using enforceMemoryLimit_ceiling_or_pinned[where
      s = "initial clipboard_clear\<lparr>clipboardHistory := [\<lparr>id' = 2, content = replicate 314572800 0x42, type' = Text, timestamp = 2, size' = 314572800, pinned = False\<rparr>,
          \<lparr>id' = 1, content = replicate 314572800 0x41, type' = Text, timestamp = 1, size' = 314572800, pinned = False\<rparr>\<lparr>pinned := True\<rparr>]\<rparr>"
      and c = "(replicate 314572800 0x42)" and ty = Text and now = 2 and stamp = 2
      and ?c0.0 = clipboard_clear and evs = "[Insert (replicate 314572800 0x41) Text 1 1]"]
  by (simp add: run bigA bigB)

text \<open>
  Claim C3. When the usage exceeds the limit and the scan from the end of the array
  finds index \<open>i\<close>, item \<open>i\<close> is not pinned, every later item is pinned, and the loop
  goes on with the array without item \<open>i\<close>. So the result of \<open>enforceMemoryLimit\<close> is
  the array with the unpinned items removed from some index \<open>k\<close> on: the oldest ones.
  In particular two different contents of 300 MiB each, inserted into an empty history,
  leave the second item alone, within the limit.
\<close>

theorem enforceMemoryLimit_evicts_oldest_unpinned:
  "(MAX_MEMORY_BYTES < getMemoryUsage s \<longrightarrow>
    lastUnpinned (clipboardHistory s) (length (clipboardHistory s)) = Some i \<longrightarrow>
      i < length (clipboardHistory s)
      \<and> \<not> pinned (clipboardHistory s ! i)
      \<and> (\<forall>j. i < j \<and> j < length (clipboardHistory s) \<longrightarrow> pinned (clipboardHistory s ! j))
      \<and> enforceMemoryLimit s
          = enforceMemoryLimit (s\<lparr>clipboardHistory := splice1 i (clipboardHistory s)\<rparr>))
   \<and> (\<exists>k. clipboardHistory (enforceMemoryLimit s)
          = take k (clipboardHistory s) @ filter pinned (drop k (clipboardHistory s)))
   \<and> (clipboardHistory s0 = [] \<longrightarrow> c1 \<noteq> c2 \<longrightarrow>
      byteLength c1 = 300 * 1024 * 1024 \<longrightarrow> byteLength c2 = 300 * 1024 * 1024 \<longrightarrow>
        clipboardHistory (addToHistory c2 ty2 now2 stamp2 (addToHistory c1 ty1 now1 stamp1 s0))
          = [\<lparr>id' = now2, content = c2, type' = ty2, timestamp = stamp2,
              size' = 300 * 1024 * 1024, pinned = False\<rparr>]
        \<and> getMemoryUsage (addToHistory c2 ty2 now2 stamp2 (addToHistory c1 ty1 now1 stamp1 s0))
            \<le> MAX_MEMORY_BYTES)"
proof -
  let ?h = "clipboardHistory s"
  have step: "i < length ?h \<and> \<not> pinned (?h ! i)
      \<and> (\<forall>j. i < j \<and> j < length ?h \<longrightarrow> pinned (?h ! j))
      \<and> enforceMemoryLimit s = enforceMemoryLimit (s\<lparr>clipboardHistory := splice1 i ?h\<rparr>)"
    if "MAX_MEMORY_BYTES < getMemoryUsage s" "lastUnpinned ?h (length ?h) = Some i"
    using lastUnpinned_Some[OF that(2)] enforce_evict[OF that] by simp
  have example:
    "clipboardHistory (addToHistory c2 ty2 now2 stamp2 (addToHistory c1 ty1 now1 stamp1 s0))
          = [\<lparr>id' = now2, content = c2, type' = ty2, timestamp = stamp2,
              size' = 300 * 1024 * 1024, pinned = False\<rparr>]
        \<and> getMemoryUsage (addToHistory c2 ty2 now2 stamp2 (addToHistory c1 ty1 now1 stamp1 s0))
            \<le> MAX_MEMORY_BYTES"
    if e: "clipboardHistory s0 = []" and ne: "c1 \<noteq> c2"
      and b1: "byteLength c1 = 300 * 1024 * 1024" and b2: "byteLength c2 = 300 * 1024 * 1024"
  proof -
    let ?e1 = "\<lparr>id' = now1, content = c1, type' = ty1, timestamp = stamp1,
              size' = 300 * 1024 * 1024, pinned = False\<rparr>"
    let ?e2 = "\<lparr>id' = now2, content = c2, type' = ty2, timestamp = stamp2,
              size' = 300 * 1024 * 1024, pinned = False\<rparr>"
    let ?a = "addToHistory c1 ty1 now1 stamp1 s0"
    let ?a1 = "s0\<lparr>clipboardHistory := [?e1]\<rparr>"
    let ?b1 = "?a\<lparr>clipboardHistory := [?e2, ?e1]\<rparr>"
    let ?b2 = "?a\<lparr>clipboardHistory := [?e2]\<rparr>"
    have "getMemoryUsage ?a1 \<le> MAX_MEMORY_BYTES"
      by (simp add: usage_sum MAX_MEMORY_BYTES_def)
    then have "enforceMemoryLimit ?a1 = ?a1" by (rule enforce_within)
    then have first: "clipboardHistory ?a = [?e1]"
      using e b1 by (simp add: addToHistory_history promoteOrCreate_def)
    have over: "MAX_MEMORY_BYTES < getMemoryUsage ?b1"
      by (simp add: usage_sum MAX_MEMORY_BYTES_def)
    have last: "lastUnpinned (clipboardHistory ?b1) (length (clipboardHistory ?b1)) = Some 1"
      by (simp add: numeral_2_eq_2)
    have "getMemoryUsage ?b2 \<le> MAX_MEMORY_BYTES"
      by (simp add: usage_sum MAX_MEMORY_BYTES_def)
    then have "enforceMemoryLimit ?b2 = ?b2" by (rule enforce_within)
    with enforce_evict[OF over last] have "enforceMemoryLimit ?b1 = ?b2"
      by (simp add: splice1_def)
    then have second: "clipboardHistory (addToHistory c2 ty2 now2 stamp2 ?a) = [?e2]"
      using first ne b2 by (simp add: addToHistory_history promoteOrCreate_def)
    then show ?thesis by (simp add: usage_sum MAX_MEMORY_BYTES_def)
  qed
  from step enforce_shape[of s] example show ?thesis by blast
qed

theorem enforceMemoryLimit_evicts_oldest_unpinned_witness:
  "MAX_MEMORY_BYTES < getMemoryUsage
      (initial clipboard_clear\<lparr>clipboardHistory := [\<lparr>id' = 2, content = replicate 314572800 0x42, type' = Text, timestamp = 2, size' = 314572800, pinned = False\<rparr>, \<lparr>id' = 1, content = replicate 314572800 0x41, type' = Text, timestamp = 1, size' = 314572800, pinned = False\<rparr>]\<rparr>)
   \<and> lastUnpinned [\<lparr>id' = 2, content = replicate 314572800 0x42, type' = Text, timestamp = 2, size' = 314572800, pinned = False\<rparr>, \<lparr>id' = 1, content = replicate 314572800 0x41, type' = Text, timestamp = 1, size' = 314572800, pinned = False\<rparr>] (length [\<lparr>id' = 2, content = replicate 314572800 0x42, type' = Text, timestamp = 2, size' = 314572800, pinned = False\<rparr>, \<lparr>id' = 1, content = replicate 314572800 0x41, type' = Text, timestamp = 1, size' = 314572800, pinned = False\<rparr>]) = Some 1
   \<and> clipboardHistory (enforceMemoryLimit
        (initial clipboard_clear\<lparr>clipboardHistory := [\<lparr>id' = 2, content = replicate 314572800 0x42, type' = Text, timestamp = 2, size' = 314572800, pinned = False\<rparr>, \<lparr>id' = 1, content = replicate 314572800 0x41, type' = Text, timestamp = 1, size' = 314572800, pinned = False\<rparr>]\<rparr>))
       = [\<lparr>id' = 2, content = replicate 314572800 0x42, type' = Text, timestamp = 2, size' = 314572800, pinned = False\<rparr>]
   \<and> replicate 314572800 (0x41::16 word) \<noteq> replicate 314572800 0x42
   \<and> byteLength (replicate 314572800 0x41) = 300 * 1024 * 1024
   \<and> byteLength (replicate 314572800 0x42) = 300 * 1024 * 1024
   \<and> clipboardHistory (addToHistory (replicate 314572800 0x42) Text 2 2
        (addToHistory (replicate 314572800 0x41) Text 1 1 (initial clipboard_clear)))
       = [\<lparr>id' = 2, content = replicate 314572800 0x42, type' = Text, timestamp = 2, size' = 314572800, pinned = False\<rparr>]"
  using enforceMemoryLimit_evicts_oldest_unpinned[where
      s = "initial clipboard_clear\<lparr>clipboardHistory := [\<lparr>id' = 2, content = replicate 314572800 0x42, type' = Text, timestamp = 2, size' = 314572800, pinned = False\<rparr>, \<lparr>id' = 1, content = replicate 314572800 0x41, type' = Text, timestamp = 1, size' = 314572800, pinned = False\<rparr>]\<rparr>"
      and i = 1 and ?s0.0 = "initial clipboard_clear"
      and ?c1.0 = "(replicate 314572800 0x41)" and ?c2.0 = "(replicate 314572800 0x42)"
      and ?ty1.0 = Text and ?ty2.0 = Text and ?now1.0 = 1 and ?now2.0 = 2
      and ?stamp1.0 = 1 and ?stamp2.0 = 2]
  by (simp add: run bigA bigB)

section \<open>Identifiers\<close>

text \<open>
  Claim C4, as the code has it. The id of an item is the reading of \<open>Date.now()\<close> taken
  when it is inserted or promoted. In every run whose readings increase strictly, no two
  items of the history have the same id.
\<close>

theorem ids_distinct_increasing_clock:
  "sorted_wrt (<) (clockReadings evs) \<Longrightarrow>
   distinct (map id' (clipboardHistory (exec (initial c0) evs)))"
  by (rule exec_ids) (simp_all add: initial_def)

theorem ids_distinct_increasing_clock_witness:
  "sorted_wrt (<) (clockReadings
      [Insert [0x41] Text 1 1, Insert [0x42] Text 2 2, Insert [0x41] Text 3 3])
   \<and> distinct (map id' (clipboardHistory (exec (initial clipboard_clear)
      [Insert [0x41] Text 1 1, Insert [0x42] Text 2 2, Insert [0x41] Text 3 3])))
   \<and> map id' (clipboardHistory (exec (initial clipboard_clear)
      [Insert [0x41] Text 1 1, Insert [0x42] Text 2 2, Insert [0x41] Text 3 3])) = [3, 2]"
  using ids_distinct_increasing_clock[where
      evs = "[Insert [0x41] Text 1 1, Insert [0x42] Text 2 2, Insert [0x41] Text 3 3]"
      and ?c0.0 = clipboard_clear]
  by (simp add: run clockReadings_def)

text \<open>
  The claim as the specification states it fails: nothing but the clock makes ids
  differ. Two insertions that read the same millisecond leave two items with the same id
  in the history (neither replaces the other).
\<close>

theorem ids_collide_same_millisecond:
  "clipboardHistory (exec (initial clipboard_clear)
      [Insert [0x41] Text 5 5, Insert [0x42] Text 5 5])
   = [\<lparr>id' = 5, content = [0x42], type' = Text, timestamp = 5, size' = 1, pinned = False\<rparr>,
      \<lparr>id' = 5, content = [0x41], type' = Text, timestamp = 5, size' = 1, pinned = False\<rparr>]
   \<and> \<not> distinct (map id' (clipboardHistory (exec (initial clipboard_clear)
      [Insert [0x41] Text 5 5, Insert [0x42] Text 5 5])))"
  by (simp add: run)

section \<open>The handlers\<close>

text \<open>
  Claim C5. \<open>clear-history\<close> leaves the history empty whatever it held, pinned items
  included; the usage is then 0 and the reply reports success and a usage of 0.
\<close>

theorem clear_history_empties:
  "clipboardHistory (snd (clear_history s)) = []
   \<and> getMemoryUsage (snd (clear_history s)) = 0
   \<and> replyMemoryUsage (fst (clear_history s)) = Some 0
   \<and> success (fst (clear_history s))"
  by (simp add: clear_history_def getMemoryUsage_def)

theorem clear_history_empties_witness:
  "clipboardHistory (exec (initial clipboard_clear)
        [Insert [0x41] Text 1 1, TogglePin 1, Insert [0x42] Text 2 2]) = [\<lparr>id' = 2, content = [0x42], type' = Text, timestamp = 2, size' = 1, pinned = False\<rparr>, \<lparr>id' = 1, content = [0x41], type' = Text, timestamp = 1, size' = 1, pinned = True\<rparr>]
   \<and> clipboardHistory (snd (clear_history (exec (initial clipboard_clear)
        [Insert [0x41] Text 1 1, TogglePin 1, Insert [0x42] Text 2 2]))) = []
   \<and> getMemoryUsage (snd (clear_history (exec (initial clipboard_clear)
        [Insert [0x41] Text 1 1, TogglePin 1, Insert [0x42] Text 2 2]))) = 0"
  using clear_history_empties[where s = "(exec (initial clipboard_clear)
        [Insert [0x41] Text 1 1, TogglePin 1, Insert [0x42] Text 2 2])"]
  by (simp add: run)

text \<open>
  Claim C6. \<open>delete-history-item\<close> keeps exactly the items whose id differs from the
  given one, in their order, and reports success exactly when some item had the id; the
  reply carries the new history and its usage. For an id that no item has, the state is
  unchanged, the reply is negative and reports the usage of the unchanged history.
\<close>

theorem delete_history_item_spec:
  "clipboardHistory (snd (delete_history_item itemId s))
     = filter (\<lambda>item. id' item \<noteq> itemId) (clipboardHistory s)
   \<and> success (fst (delete_history_item itemId s)) = (itemId \<in> id' ` set (clipboardHistory s))
   \<and> itemId \<notin> id' ` set (clipboardHistory (snd (delete_history_item itemId s)))
   \<and> replyHistory (fst (delete_history_item itemId s))
       = Some (clipboardHistory (snd (delete_history_item itemId s)))
   \<and> replyMemoryUsage (fst (delete_history_item itemId s))
       = Some (getMemoryUsage (snd (delete_history_item itemId s)))
   \<and> (itemId \<notin> id' ` set (clipboardHistory s) \<longrightarrow>
        snd (delete_history_item itemId s) = s
        \<and> \<not> success (fst (delete_history_item itemId s))
        \<and> replyMemoryUsage (fst (delete_history_item itemId s)) = Some (getMemoryUsage s))"
proof -
  let ?h = "clipboardHistory s"
  have len: "(length ?h \<noteq> length (filter (\<lambda>item. id' item \<noteq> itemId) ?h))
     = (itemId \<in> id' ` set ?h)"
    using filter_length_eq[of "\<lambda>item. id' item \<noteq> itemId" ?h] by auto
  have same: "itemId \<notin> id' ` set ?h \<Longrightarrow> filter (\<lambda>item. id' item \<noteq> itemId) ?h = ?h"
    by (auto simp: filter_id_conv)
  show ?thesis using len same
    by (auto simp: delete_history_item_def Let_def)
qed

theorem delete_history_item_spec_witness:
  "7 \<notin> id' ` set (clipboardHistory (exec (initial clipboard_clear)
        [Insert [0x41] Text 1 1, TogglePin 1, Insert [0x42] Text 2 2]))
   \<and> snd (delete_history_item 7 (exec (initial clipboard_clear)
        [Insert [0x41] Text 1 1, TogglePin 1, Insert [0x42] Text 2 2])) = (exec (initial clipboard_clear)
        [Insert [0x41] Text 1 1, TogglePin 1, Insert [0x42] Text 2 2])
   \<and> \<not> success (fst (delete_history_item 7 (exec (initial clipboard_clear)
        [Insert [0x41] Text 1 1, TogglePin 1, Insert [0x42] Text 2 2])))
   \<and> clipboardHistory (snd (delete_history_item 1 (exec (initial clipboard_clear)
        [Insert [0x41] Text 1 1, TogglePin 1, Insert [0x42] Text 2 2]))) = [\<lparr>id' = 2, content = [0x42], type' = Text, timestamp = 2, size' = 1, pinned = False\<rparr>]
   \<and> success (fst (delete_history_item 1 (exec (initial clipboard_clear)
        [Insert [0x41] Text 1 1, TogglePin 1, Insert [0x42] Text 2 2])))"
  using delete_history_item_spec[where itemId = 7 and s = "(exec (initial clipboard_clear)
        [Insert [0x41] Text 1 1, TogglePin 1, Insert [0x42] Text 2 2])"]
    delete_history_item_spec[where itemId = 1 and s = "(exec (initial clipboard_clear)
        [Insert [0x41] Text 1 1, TogglePin 1, Insert [0x42] Text 2 2])"]
  by (simp add: run)

text \<open>
  Claim C7. \<open>toggle-pin-item\<close> finds no item exactly when no item has the id, and then
  answers \<open>{ success: false }\<close> and leaves the state as it is. Otherwise, with \<open>k\<close> the
  index of the first item with the id, the reply reports success with the new history,
  and the new state is the old one with the \<open>pinned\<close> field of item \<open>k\<close> negated:
  the array has the same length, every other item is the same, item \<open>k\<close> keeps its
  other fields and its position, and the usage is the same.
\<close>

theorem toggle_pin_item_spec:
  "(findIndex (\<lambda>i. id' i = itemId) (clipboardHistory s) = None)
      = (itemId \<notin> id' ` set (clipboardHistory s))
   \<and> (itemId \<notin> id' ` set (clipboardHistory s) \<longrightarrow>
        toggle_pin_item itemId s
          = (\<lparr>success = False, replyHistory = None, replyMemoryUsage = None\<rparr>, s))
   \<and> (findIndex (\<lambda>i. id' i = itemId) (clipboardHistory s) = Some k \<longrightarrow>
        k < length (clipboardHistory s)
        \<and> id' (clipboardHistory s ! k) = itemId
        \<and> success (fst (toggle_pin_item itemId s))
        \<and> replyHistory (fst (toggle_pin_item itemId s))
            = Some (clipboardHistory (snd (toggle_pin_item itemId s)))
        \<and> snd (toggle_pin_item itemId s)
            = s\<lparr>clipboardHistory :=
                  (clipboardHistory s)[k := (clipboardHistory s ! k)
                                            \<lparr>pinned := \<not> pinned (clipboardHistory s ! k)\<rparr>]\<rparr>
        \<and> length (clipboardHistory (snd (toggle_pin_item itemId s))) = length (clipboardHistory s)
        \<and> (\<forall>j<length (clipboardHistory s). j \<noteq> k \<longrightarrow>
              clipboardHistory (snd (toggle_pin_item itemId s)) ! j = clipboardHistory s ! j)
        \<and> clipboardHistory (snd (toggle_pin_item itemId s)) ! k
            = (clipboardHistory s ! k)\<lparr>pinned := \<not> pinned (clipboardHistory s ! k)\<rparr>
        \<and> getMemoryUsage (snd (toggle_pin_item itemId s)) = getMemoryUsage s)"
proof -
  let ?h = "clipboardHistory s"
  have none: "(findIndex (\<lambda>i. id' i = itemId) ?h = None) = (itemId \<notin> id' ` set ?h)"
    by (auto simp: findIndex_None)
  have miss: "itemId \<notin> id' ` set ?h \<Longrightarrow>
      toggle_pin_item itemId s = (\<lparr>success = False, replyHistory = None, replyMemoryUsage = None\<rparr>, s)"
    using none by (simp add: toggle_pin_item_def)
  have hit: "k < length ?h \<and> id' (?h ! k) = itemId
        \<and> success (fst (toggle_pin_item itemId s))
        \<and> replyHistory (fst (toggle_pin_item itemId s))
            = Some (clipboardHistory (snd (toggle_pin_item itemId s)))
        \<and> snd (toggle_pin_item itemId s)
            = s\<lparr>clipboardHistory := ?h[k := (?h ! k)\<lparr>pinned := \<not> pinned (?h ! k)\<rparr>]\<rparr>
        \<and> length (clipboardHistory (snd (toggle_pin_item itemId s))) = length ?h
        \<and> (\<forall>j<length ?h. j \<noteq> k \<longrightarrow> clipboardHistory (snd (toggle_pin_item itemId s)) ! j = ?h ! j)
        \<and> clipboardHistory (snd (toggle_pin_item itemId s)) ! k
            = (?h ! k)\<lparr>pinned := \<not> pinned (?h ! k)\<rparr>
        \<and> getMemoryUsage (snd (toggle_pin_item itemId s)) = getMemoryUsage s"
    if some: "findIndex (\<lambda>i. id' i = itemId) ?h = Some k"
  proof -
    from findIndex_Some[OF some] have k: "k < length ?h" "id' (?h ! k) = itemId" by auto
    show ?thesis using some k
      by (simp add: toggle_pin_item_def Let_def usage_sum toggle_sizes)
  qed
  from none miss hit show ?thesis by blast
qed

theorem toggle_pin_item_spec_witness:
  "findIndex (\<lambda>i. id' i = 2) (clipboardHistory (exec (initial clipboard_clear)
        [Insert [0x41] Text 1 1, TogglePin 1, Insert [0x42] Text 2 2])) = Some 0
   \<and> clipboardHistory (snd (toggle_pin_item 2 (exec (initial clipboard_clear)
        [Insert [0x41] Text 1 1, TogglePin 1, Insert [0x42] Text 2 2])))
       = [\<lparr>id' = 2, content = [0x42], type' = Text, timestamp = 2, size' = 1, pinned = False\<rparr>\<lparr>pinned := True\<rparr>, \<lparr>id' = 1, content = [0x41], type' = Text, timestamp = 1, size' = 1, pinned = True\<rparr>]
   \<and> success (fst (toggle_pin_item 2 (exec (initial clipboard_clear)
        [Insert [0x41] Text 1 1, TogglePin 1, Insert [0x42] Text 2 2])))
   \<and> 7 \<notin> id' ` set (clipboardHistory (exec (initial clipboard_clear)
        [Insert [0x41] Text 1 1, TogglePin 1, Insert [0x42] Text 2 2]))
   \<and> toggle_pin_item 7 (exec (initial clipboard_clear)
        [Insert [0x41] Text 1 1, TogglePin 1, Insert [0x42] Text 2 2])
       = (\<lparr>success = False, replyHistory = None, replyMemoryUsage = None\<rparr>, (exec (initial clipboard_clear)
        [Insert [0x41] Text 1 1, TogglePin 1, Insert [0x42] Text 2 2]))"
  using toggle_pin_item_spec[where itemId = 2 and k = 0 and s = "(exec (initial clipboard_clear)
        [Insert [0x41] Text 1 1, TogglePin 1, Insert [0x42] Text 2 2])"]
    toggle_pin_item_spec[where itemId = 7 and k = 0 and s = "(exec (initial clipboard_clear)
        [Insert [0x41] Text 1 1, TogglePin 1, Insert [0x42] Text 2 2])"]
  by (simp add: run)

section \<open>The poller\<close>

text \<open>
  Claim C8. On a tick that reads an empty text and an empty image while the last seen
  content is not \<open>null\<close>, the callback sets the last seen content to \<open>null\<close> and sends
  the update with \<open>currentContent: null\<close> (\<open>send_update\<close>); the history and the usage
  are as before. In a run the interval is installed only while the window exists, so the
  tick of a running poller changes the state exactly by the reset and by one more
  message, which carries the unchanged history and its usage.
\<close>

theorem tick_external_clear:
  "readText (clipboard s) = [] \<and> isEmpty (readImage (clipboard s))
     \<and> lastClipboardContent s \<noteq> None \<longrightarrow>
   tick now stamp s = send_update None None (s\<lparr>lastClipboardContent := None\<rparr>)
   \<and> lastClipboardContent (tick now stamp s) = None
   \<and> clipboardHistory (tick now stamp s) = clipboardHistory s
   \<and> getMemoryUsage (tick now stamp s) = getMemoryUsage s
   \<and> (s = exec (initial c0) evs \<and> clipboardMonitor s \<longrightarrow>
        step (Tick now stamp) s
          = s\<lparr>lastClipboardContent := None,
              sent := sent s @ [\<lparr>history = clipboardHistory s, currentContent = None,
                                  contentType = None, memoryUsage = getMemoryUsage s\<rparr>]\<rparr>)"
proof (intro impI)
  assume a: "readText (clipboard s) = [] \<and> isEmpty (readImage (clipboard s))
     \<and> lastClipboardContent s \<noteq> None"
  then have d: "detect s = (None, s)" by (simp add: detect_def)
  have t: "tick now stamp s = send_update None None (s\<lparr>lastClipboardContent := None\<rparr>)"
    using a d by (simp add: tick_def clearedExternally_def)
  have w: "mainWindow s" if "s = exec (initial c0) evs" "clipboardMonitor s"
    using that reachable_monitor[of c0 evs] by simp
  have u: "getMemoryUsage (s\<lparr>lastClipboardContent := None\<rparr>) = getMemoryUsage s"
    by (simp add: getMemoryUsage_def)
  show "tick now stamp s = send_update None None (s\<lparr>lastClipboardContent := None\<rparr>)
   \<and> lastClipboardContent (tick now stamp s) = None
   \<and> clipboardHistory (tick now stamp s) = clipboardHistory s
   \<and> getMemoryUsage (tick now stamp s) = getMemoryUsage s
   \<and> (s = exec (initial c0) evs \<and> clipboardMonitor s \<longrightarrow>
        step (Tick now stamp) s
          = s\<lparr>lastClipboardContent := None,
              sent := sent s @ [\<lparr>history = clipboardHistory s, currentContent = None,
                                  contentType = None, memoryUsage = getMemoryUsage s\<rparr>]\<rparr>)"
    using t w by (auto simp: send_update_def getMemoryUsage_def)
qed

theorem tick_external_clear_witness:
  "readText (clipboard (exec (initial clipboard_clear)
        [CreateWindow, ReadyToShow, External \<lparr>readText = [0x41], readImage = EmptyImage\<rparr>,
         Tick 1 1, External clipboard_clear])) = []
   \<and> isEmpty (readImage (clipboard (exec (initial clipboard_clear)
        [CreateWindow, ReadyToShow, External \<lparr>readText = [0x41], readImage = EmptyImage\<rparr>,
         Tick 1 1, External clipboard_clear])))
   \<and> lastClipboardContent (exec (initial clipboard_clear)
        [CreateWindow, ReadyToShow, External \<lparr>readText = [0x41], readImage = EmptyImage\<rparr>,
         Tick 1 1, External clipboard_clear]) = Some [0x41]
   \<and> clipboardMonitor (exec (initial clipboard_clear)
        [CreateWindow, ReadyToShow, External \<lparr>readText = [0x41], readImage = EmptyImage\<rparr>,
         Tick 1 1, External clipboard_clear])
   \<and> lastClipboardContent (step (Tick 2 2) (exec (initial clipboard_clear)
        [CreateWindow, ReadyToShow, External \<lparr>readText = [0x41], readImage = EmptyImage\<rparr>,
         Tick 1 1, External clipboard_clear])) = None
   \<and> clipboardHistory (step (Tick 2 2) (exec (initial clipboard_clear)
        [CreateWindow, ReadyToShow, External \<lparr>readText = [0x41], readImage = EmptyImage\<rparr>,
         Tick 1 1, External clipboard_clear])) = [\<lparr>id' = 1, content = [0x41], type' = Text, timestamp = 1, size' = 1, pinned = False\<rparr>]
   \<and> sent (step (Tick 2 2) (exec (initial clipboard_clear)
        [CreateWindow, ReadyToShow, External \<lparr>readText = [0x41], readImage = EmptyImage\<rparr>,
         Tick 1 1, External clipboard_clear]))
       = [\<lparr>history = [\<lparr>id' = 1, content = [0x41], type' = Text, timestamp = 1, size' = 1, pinned = False\<rparr>], currentContent = Some [0x41], contentType = Some Text,
           memoryUsage = 1\<rparr>,
          \<lparr>history = [\<lparr>id' = 1, content = [0x41], type' = Text, timestamp = 1, size' = 1, pinned = False\<rparr>], currentContent = None, contentType = None,
           memoryUsage = 1\<rparr>]"
  using tick_external_clear[where s = "(exec (initial clipboard_clear)
        [CreateWindow, ReadyToShow, External \<lparr>readText = [0x41], readImage = EmptyImage\<rparr>,
         Tick 1 1, External clipboard_clear])"
      and now = 2 and stamp = 2 and ?c0.0 = clipboard_clear
      and evs = "[CreateWindow, ReadyToShow, External \<lparr>readText = [0x41], readImage = EmptyImage\<rparr>,
         Tick 1 1, External clipboard_clear]"]
  by (simp add: run)

section \<open>Memory accounting\<close>

text \<open>
  Claim C9. \<open>getMemoryUsage\<close> is the sum of the \<open>size\<close> fields of the items of the
  history, in any state and so in every state of every run; the usage that the handlers
  report is that sum for the history they leave, and every update message sent in a run
  carries the sum for the history it carries.
\<close>

theorem getMemoryUsage_is_sum:
  "getMemoryUsage s = sum_list (map size' (clipboardHistory s))
   \<and> getMemoryUsage (exec (initial c0) evs)
       = sum_list (map size' (clipboardHistory (exec (initial c0) evs)))
   \<and> replyMemoryUsage (fst (delete_history_item itemId s))
       = Some (sum_list (map size' (clipboardHistory (snd (delete_history_item itemId s)))))
   \<and> replyMemoryUsage (fst (clear_history s))
       = Some (sum_list (map size' (clipboardHistory (snd (clear_history s)))))
   \<and> memoryUsage (get_clipboard_history s) = sum_list (map size' (clipboardHistory s))
   \<and> (\<forall>u\<in>set (sent (exec (initial c0) evs)).
         memoryUsage u = sum_list (map size' (history u)))"
proof -
  have "\<forall>u\<in>set (sent (exec (initial c0) evs)). memoryUsage u = sum_list (map size' (history u))"
    by (rule sent_exec) (simp add: initial_def)
  then show ?thesis
    by (simp add: usage_sum delete_history_item_def Let_def clear_history_def
        get_clipboard_history_def)
qed

theorem getMemoryUsage_is_sum_witness:
  "getMemoryUsage (exec (initial clipboard_clear)
        [Insert [0x41] Text 1 1, TogglePin 1, Insert [0x42] Text 2 2]) = 2
   \<and> sum_list (map size' (clipboardHistory (exec (initial clipboard_clear)
        [Insert [0x41] Text 1 1, TogglePin 1, Insert [0x42] Text 2 2]))) = 2
   \<and> replyMemoryUsage (fst (delete_history_item 1 (exec (initial clipboard_clear)
        [Insert [0x41] Text 1 1, TogglePin 1, Insert [0x42] Text 2 2]))) = Some 1
   \<and> map memoryUsage (sent (exec (initial clipboard_clear)
        [CreateWindow, ReadyToShow, External \<lparr>readText = [0x41], readImage = EmptyImage\<rparr>,
         Tick 1 1, External clipboard_clear])) = [1]"
  using getMemoryUsage_is_sum[where s = "(exec (initial clipboard_clear)
        [Insert [0x41] Text 1 1, TogglePin 1, Insert [0x42] Text 2 2])"
      and itemId = 1 and ?c0.0 = clipboard_clear
      and evs = "[CreateWindow, ReadyToShow, External \<lparr>readText = [0x41], readImage = EmptyImage\<rparr>,
         Tick 1 1, External clipboard_clear]"]
  by (simp add: run)

section \<open>What clearing the history does besides\<close>

text \<open>
  Claim C10. \<open>clear-history\<close> also clears the system clipboard and sets the last seen
  content to \<open>null\<close>: \<open>get-clipboard-history\<close> then reports \<open>currentContent: null\<close>,
  and still does after a tick of the poller.
\<close>

theorem clear_history_clears_clipboard:
  "clipboard (snd (clear_history s)) = clipboard_clear
   \<and> readText (clipboard (snd (clear_history s))) = []
   \<and> isEmpty (readImage (clipboard (snd (clear_history s))))
   \<and> lastClipboardContent (snd (clear_history s)) = None
   \<and> currentContent (get_clipboard_history (snd (clear_history s))) = None
   \<and> currentContent (get_clipboard_history (step (Tick now stamp) (snd (clear_history s)))) = None"
  by (simp add: clear_history_def clipboard_clear_def get_clipboard_history_def tick_def detect_def
      clearedExternally_def)

theorem clear_history_clears_clipboard_witness:
  "lastClipboardContent (exec (initial clipboard_clear)
        [CreateWindow, ReadyToShow, External \<lparr>readText = [0x41], readImage = EmptyImage\<rparr>,
         Tick 1 1]) = Some [0x41]
   \<and> readText (clipboard (exec (initial clipboard_clear)
        [CreateWindow, ReadyToShow, External \<lparr>readText = [0x41], readImage = EmptyImage\<rparr>,
         Tick 1 1])) = [0x41]
   \<and> clipboard (exec (initial clipboard_clear)
        [CreateWindow, ReadyToShow, External \<lparr>readText = [0x41], readImage = EmptyImage\<rparr>,
         Tick 1 1, ClearHistory]) = clipboard_clear
   \<and> currentContent (get_clipboard_history (exec (initial clipboard_clear)
        [CreateWindow, ReadyToShow, External \<lparr>readText = [0x41], readImage = EmptyImage\<rparr>,
         Tick 1 1, ClearHistory])) = None"
  using clear_history_clears_clipboard[where s = "exec (initial clipboard_clear)
        [CreateWindow, ReadyToShow, External \<lparr>readText = [0x41], readImage = EmptyImage\<rparr>,
         Tick 1 1]" and now = 2 and stamp = 2]
  by (simp add: run)

end
